theory Spec2Isabelle
  imports Main "HOL-Library.Word"
begin

unbundle bit_operations_syntax

section \<open>The standard library the ledger calls\<close>

subsection \<open>hashlib.sha256 (FIPS 180-4)\<close>

text \<open>
  \<^verbatim>\<open>hashlib.sha256(data).hexdigest()\<close> is the standard library's. It is written out here
  as FIPS 180-4 defines it, on 32-bit words, so that a block hash can be computed on a
  concrete block. The round constants and the initial hash value are written in decimal.
\<close>

type_synonym u32 = "32 word"
type_synonym byte = "8 word"

definition rotr :: "nat \<Rightarrow> u32 \<Rightarrow> u32" where
  "rotr n x = drop_bit n x OR push_bit (32 - n) x"

definition Ch :: "u32 \<Rightarrow> u32 \<Rightarrow> u32 \<Rightarrow> u32" where
  "Ch x y z = (x AND y) XOR (NOT x AND z)"

definition Maj :: "u32 \<Rightarrow> u32 \<Rightarrow> u32 \<Rightarrow> u32" where
  "Maj x y z = (x AND y) XOR (x AND z) XOR (y AND z)"

definition bsig0 :: "u32 \<Rightarrow> u32" where
  "bsig0 x = rotr 2 x XOR rotr 13 x XOR rotr 22 x"

definition bsig1 :: "u32 \<Rightarrow> u32" where
  "bsig1 x = rotr 6 x XOR rotr 11 x XOR rotr 25 x"

definition ssig0 :: "u32 \<Rightarrow> u32" where
  "ssig0 x = rotr 7 x XOR rotr 18 x XOR drop_bit 3 x"

definition ssig1 :: "u32 \<Rightarrow> u32" where
  "ssig1 x = rotr 17 x XOR rotr 19 x XOR drop_bit 10 x"

definition K256 :: "u32 list" where
  "K256 = [
    1116352408, 1899447441, 3049323471, 3921009573, 961987163, 1508970993,
    2453635748, 2870763221, 3624381080, 310598401, 607225278, 1426881987,
    1925078388, 2162078206, 2614888103, 3248222580, 3835390401, 4022224774,
    264347078, 604807628, 770255983, 1249150122, 1555081692, 1996064986,
    2554220882, 2821834349, 2952996808, 3210313671, 3336571891, 3584528711,
    113926993, 338241895, 666307205, 773529912, 1294757372, 1396182291,
    1695183700, 1986661051, 2177026350, 2456956037, 2730485921, 2820302411,
    3259730800, 3345764771, 3516065817, 3600352804, 4094571909, 275423344,
    430227734, 506948616, 659060556, 883997877, 958139571, 1322822218,
    1537002063, 1747873779, 1955562222, 2024104815, 2227730452, 2361852424,
    2428436474, 2756734187, 3204031479, 3329325298]"

definition H256 :: "u32 list" where
  "H256 = [1779033703, 3144134277, 1013904242, 2773480762,
           1359893119, 2600822924, 528734635, 1541459225]"

text \<open>The message schedule, kept newest word first: \<open>ws ! 1\<close> is \<open>W(t-2)\<close>.\<close>

fun schedule :: "nat \<Rightarrow> u32 list \<Rightarrow> u32 list" where
  "schedule 0 ws = ws"
| "schedule (Suc n) ws =
     schedule n ((ssig1 (ws ! 1) + ws ! 6 + ssig0 (ws ! 14) + ws ! 15) # ws)"

definition step :: "u32 list \<Rightarrow> u32 \<Rightarrow> u32 \<Rightarrow> u32 list" where
  "step s t1 t2 = [t1 + t2, s ! 0, s ! 1, s ! 2, s ! 3 + t1, s ! 4, s ! 5, s ! 6]"

definition round256 :: "u32 list \<Rightarrow> u32 \<Rightarrow> u32 \<Rightarrow> u32 list" where
  "round256 s k w =
     step s (s ! 7 + bsig1 (s ! 4) + Ch (s ! 4) (s ! 5) (s ! 6) + k + w)
            (bsig0 (s ! 0) + Maj (s ! 0) (s ! 1) (s ! 2))"

fun rounds :: "u32 list \<Rightarrow> u32 list \<Rightarrow> u32 list \<Rightarrow> u32 list" where
  "rounds s (k # ks) (w # ws) = rounds (round256 s k w) ks ws"
| "rounds s _ _ = s"

definition compress :: "u32 list \<Rightarrow> u32 list \<Rightarrow> u32 list" where
  "compress h blk = map2 (+) h (rounds h K256 (rev (schedule 48 (rev blk))))"

fun be_words :: "byte list \<Rightarrow> u32 list" where
  "be_words (a # b # c # d # bs) =
     word_of_int (((uint a * 256 + uint b) * 256 + uint c) * 256 + uint d) # be_words bs"
| "be_words _ = []"

definition be64 :: "int \<Rightarrow> byte list" where
  "be64 n = map (\<lambda>i. word_of_int (n div 256 ^ i)) [7, 6, 5, 4, 3, 2, 1, 0]"

definition pad :: "byte list \<Rightarrow> byte list" where
  "pad m = m @ [128] @ replicate ((119 - length m mod 64) mod 64) 0
             @ be64 (8 * int (length m))"

function message_blocks :: "u32 list \<Rightarrow> u32 list list" where
  "message_blocks ws =
     (if length ws < 16 then [] else take 16 ws # message_blocks (drop 16 ws))"
  by pat_completeness auto
termination
  by (relation "measure length") auto

declare message_blocks.simps [simp del]

definition sha256 :: "byte list \<Rightarrow> u32 list" where
  "sha256 m = foldl compress H256 (message_blocks (be_words (pad m)))"

definition hexdigit :: "u32 \<Rightarrow> char" where
  "hexdigit n = ''0123456789abcdef'' ! unat n"

definition hex32 :: "u32 \<Rightarrow> string" where
  "hex32 w = map (\<lambda>i. hexdigit (drop_bit i w AND 15)) [28, 24, 20, 16, 12, 8, 4, 0]"

definition hexdigest :: "u32 list \<Rightarrow> string" where
  "hexdigest h = concat (map hex32 h)"

text \<open>
  \<^verbatim>\<open>str.encode()\<close> is UTF-8. A \<open>char\<close> is a code point below 256: below 128 it is one
  byte, from 128 on it is two.
\<close>

definition encode :: "string \<Rightarrow> byte list" where
  "encode s = concat (map (\<lambda>c. if (of_char c :: byte) < 128 then [of_char c]
       else [192 + of_char c div 64, 128 + of_char c mod 64]) s)"

text \<open>\<^verbatim>\<open>hashlib.sha256(s.encode()).hexdigest()\<close>\<close>

definition sha256_hex :: "string \<Rightarrow> string" where
  "sha256_hex s = hexdigest (sha256 (encode s))"

subsection \<open>str and repr\<close>

definition digit_char :: "nat \<Rightarrow> char" where
  "digit_char n = ''0123456789'' ! n"

text \<open>\<^verbatim>\<open>str(n)\<close> of an integer: decimal digits, a minus sign below zero.\<close>

function str_nat :: "nat \<Rightarrow> string" where
  "str_nat n = (if n < 10 then [digit_char n] else str_nat (n div 10) @ [digit_char (n mod 10)])"
  by pat_completeness auto
termination
  by (relation "measure id") auto

declare str_nat.simps [simp del]

definition str_int :: "int \<Rightarrow> string" where
  "str_int i = (if i < 0 then CHR ''-'' # str_nat (nat (- i)) else str_nat (nat i))"

text \<open>
  \<^verbatim>\<open>repr(s)\<close> of a string: single quotes, unless the string holds a single quote and no
  double quote; the quote and the backslash escaped, tab, newline and carriage return by
  letter, every other unprintable code point as \<^verbatim>\<open>\xNN\<close>.
\<close>

definition bslash :: char where
  "bslash = CHR 0x5C"

definition squote :: char where
  "squote = CHR 0x27"

definition dquote :: char where
  "dquote = CHR 0x22"

definition hexchar :: "nat \<Rightarrow> char" where
  "hexchar n = ''0123456789abcdef'' ! n"

definition printable :: "char \<Rightarrow> bool" where
  "printable c = (let n = (of_char c :: nat) in (32 \<le> n \<and> n < 127) \<or> (161 \<le> n \<and> n \<noteq> 173))"

definition repr_char :: "char \<Rightarrow> char \<Rightarrow> string" where
  "repr_char q c =
     (if c = q \<or> c = bslash then [bslash, c]
      else if c = CHR 0x09 then [bslash, CHR ''t'']
      else if c = CHR 0x0A then [bslash, CHR ''n'']
      else if c = CHR 0x0D then [bslash, CHR ''r'']
      else if printable c then [c]
      else [bslash, CHR ''x'', hexchar (of_char c div 16), hexchar (of_char c mod 16)])"

definition repr_str :: "string \<Rightarrow> string" where
  "repr_str s =
     (let q = (if squote \<in> set s \<and> dquote \<notin> set s then dquote else squote)
      in [q] @ concat (map (repr_char q) s) @ [q])"

text \<open>\<^verbatim>\<open>', '.join(xs)\<close>, as \<^verbatim>\<open>repr\<close> of a list separates its elements.\<close>

fun join_comma :: "string list \<Rightarrow> string" where
  "join_comma [] = []"
| "join_comma [x] = x"
| "join_comma (x # y # ys) = x @ '', '' @ join_comma (y # ys)"

section \<open>Transactions\<close>

text \<open>
  \<^verbatim>\<open>add_transaction\<close> builds \<^verbatim>\<open>{'sender': sender, 'receiver': receiver, 'amount': amount}\<close>;
  names are strings and amounts are integers, as in the program's own run.
\<close>

record transaction =
  sender :: string
  receiver :: string
  amount :: int

text \<open>\<^verbatim>\<open>str(tx)\<close> of that dict, keys in insertion order.\<close>

definition str_tx :: "transaction \<Rightarrow> string" where
  "str_tx tx = ''{'' @ repr_str ''sender'' @ '': '' @ repr_str (sender tx) @ '', ''
     @ repr_str ''receiver'' @ '': '' @ repr_str (receiver tx) @ '', ''
     @ repr_str ''amount'' @ '': '' @ str_int (amount tx) @ ''}''"

text \<open>\<^verbatim>\<open>str(transactions)\<close> of the list.\<close>

definition str_txs :: "transaction list \<Rightarrow> string" where
  "str_txs txs = ''['' @ join_comma (map str_tx txs) @ '']''"

section \<open>MerkleTree\<close>

definition hash_pair :: "string \<Rightarrow> string \<Rightarrow> string" where
  "hash_pair left right = sha256_hex (left @ right)"

text \<open>\<^verbatim>\<open>range(i, stop, 2)\<close>, the indices the pairing loop visits.\<close>

function range2 :: "nat \<Rightarrow> nat \<Rightarrow> nat list" where
  "range2 i stop = (if i < stop then i # range2 (i + 2) stop else [])"
  by pat_completeness auto
termination
  by (relation "measure (\<lambda>(i, stop). stop - i)") auto

declare range2.simps [simp del]

lemma range2_step: "i < stop \<Longrightarrow> range2 i stop = i # range2 (i + 2) stop"
  by (subst range2.simps) simp

lemma range2_done: "\<not> i < stop \<Longrightarrow> range2 i stop = []"
  by (subst range2.simps) simp

text \<open>
  The body of \<^verbatim>\<open>create_merkle_root\<close> between its two returns: the loop appends one pair
  hash per index of \<^verbatim>\<open>range(0, len(transactions) - 1, 2)\<close>, then the odd tail is hashed
  with itself.
\<close>

definition new_level :: "string list \<Rightarrow> string list" where
  "new_level transactions =
     map (\<lambda>i. hash_pair (transactions ! i) (transactions ! (i + 1)))
         (range2 0 (length transactions - 1))
     @ (if length transactions mod 2 = 1
        then [hash_pair (last transactions) (last transactions)] else [])"

lemma length_range2: "length (range2 i stop) = (stop - i + 1) div 2"
proof (induction i stop rule: range2.induct)
  case (1 i stop)
  show ?case
  proof (cases "i < stop")
    case True
    have "length (range2 i stop) = Suc (length (range2 (i + 2) stop))"
      using True by (simp add: range2_step)
    also have "\<dots> = Suc ((stop - (i + 2) + 1) div 2)"
      using 1 True by simp
    also have "\<dots> = (stop - i + 1) div 2"
      using True by presburger
    finally show ?thesis .
  next
    case False
    then show ?thesis by (simp add: range2_done)
  qed
qed

lemma length_new_level: "length (new_level ts) = (length ts + 1) div 2"
proof -
  have "length (new_level ts) = (length ts - 1 + 1) div 2 + (if length ts mod 2 = 1 then 1 else 0)"
    by (simp add: new_level_def length_range2)
  also have "\<dots> = (length ts + 1) div 2"
    by presburger
  finally show ?thesis .
qed

function create_merkle_root :: "string list \<Rightarrow> string" where
  "create_merkle_root transactions =
     (if length transactions = 0 then ''''
      else if length transactions = 1 then sha256_hex (transactions ! 0)
      else create_merkle_root (new_level transactions))"
  by pat_completeness auto
termination
proof (relation "measure length")
  show "wf (measure length)" by simp
next
  fix transactions :: "string list"
  assume "length transactions \<noteq> 0" "length transactions \<noteq> 1"
  then have "(length transactions + 1) div 2 < length transactions"
    by presburger
  then show "(new_level transactions, transactions) \<in> measure length"
    by (simp add: length_new_level)
qed

declare create_merkle_root.simps [simp del]

record MerkleTree =
  merkle_root :: string

text \<open>
  \<^verbatim>\<open>MerkleTree.__init__(transactions, merkle_root='')\<close>. \<^verbatim>\<open>from_dict\<close> passes the string
  \<^verbatim>\<open>''\<close> for \<^verbatim>\<open>transactions\<close>; its length is 0, as the empty list's is.
\<close>

definition MerkleTree_init :: "string list \<Rightarrow> string \<Rightarrow> MerkleTree" where
  "MerkleTree_init transactions root =
     (if root = '''' then \<lparr>merkle_root = create_merkle_root transactions\<rparr>
      else \<lparr>merkle_root = root\<rparr>)"

section \<open>datetime\<close>

text \<open>
  \<^verbatim>\<open>datetime.now()\<close> reads the clock: the model takes the reading as an argument. It is
  a naive datetime; \<^verbatim>\<open>str\<close> of it is \<^verbatim>\<open>YYYY-MM-DD HH:MM:SS\<close>, followed by
  \<^verbatim>\<open>.ffffff\<close> when the microsecond is not 0.
\<close>

record datetime =
  year :: nat
  month :: nat
  day :: nat
  hour :: nat
  minute :: nat
  second :: nat
  microsecond :: nat

text \<open>The last \<open>w\<close> decimal digits of \<open>n\<close>, zero-padded: \<^verbatim>\<open>'%0wd' % n\<close> below \<open>10 ^ w\<close>.\<close>

fun zpad :: "nat \<Rightarrow> nat \<Rightarrow> string" where
  "zpad 0 n = []"
| "zpad (Suc w) n = zpad w (n div 10) @ [digit_char (n mod 10)]"

definition str_datetime :: "datetime \<Rightarrow> string" where
  "str_datetime t =
     zpad 4 (year t) @ ''-'' @ zpad 2 (month t) @ ''-'' @ zpad 2 (day t) @ '' ''
     @ zpad 2 (hour t) @ '':'' @ zpad 2 (minute t) @ '':'' @ zpad 2 (second t)
     @ (if microsecond t = 0 then [] else ''.'' @ zpad 6 (microsecond t))"

section \<open>Block\<close>

record Block =
  timestamp :: datetime
  transactions :: "transaction list"
  previous_hash :: string
  merkle_tree :: MerkleTree
  nonce :: int
  hash :: string

definition generate_hash :: "Block \<Rightarrow> string" where
  "generate_hash self =
     sha256_hex (str_datetime (timestamp self) @ str_txs (transactions self)
       @ previous_hash self @ str_int (nonce self) @ merkle_root (merkle_tree self))"

text \<open>
  \<^verbatim>\<open>Block.__init__\<close>; \<open>now\<close> is what \<^verbatim>\<open>datetime.now()\<close> returns there. The \<open>hash\<close>
  attribute does not exist before the last assignment, and \<^verbatim>\<open>generate_hash\<close> does not
  read it.
\<close>

definition Block_init :: "datetime \<Rightarrow> transaction list \<Rightarrow> string \<Rightarrow> Block" where
  "Block_init now txs prev =
     (let self = \<lparr>timestamp = now, transactions = txs, previous_hash = prev,
                  merkle_tree = MerkleTree_init (map str_tx txs) '''',
                  nonce = 0, hash = ''''\<rparr>
      in self\<lparr>hash := generate_hash self\<rparr>)"

definition verify_transactions :: "Block \<Rightarrow> bool" where
  "verify_transactions self =
     (merkle_root (MerkleTree_init (map str_tx (transactions self)) '''')
        = merkle_root (merkle_tree self))"

section \<open>Blockchain\<close>

datatype error = IndexError | KeyError string | ValueError

record Blockchain =
  chain :: "Block list"
  current_transactions :: "transaction list"

definition create_genesis_block :: "datetime \<Rightarrow> Blockchain \<Rightarrow> Blockchain" where
  "create_genesis_block now self = self\<lparr>chain := chain self @ [Block_init now [] ''0'']\<rparr>"

definition Blockchain_init :: "datetime \<Rightarrow> Blockchain" where
  "Blockchain_init now = create_genesis_block now \<lparr>chain = [], current_transactions = []\<rparr>"

text \<open>
  \<^verbatim>\<open>proof_of_work\<close> changes the block it is given and returns its hash: the model returns
  both. The loop has no bound, so the function is partial: \<open>None\<close> is a search that
  never ends.
\<close>

partial_function (option) proof_of_work :: "Block \<Rightarrow> (Block \<times> string) option" where
  "proof_of_work block =
     (if take 4 (hash block) \<noteq> ''0000''
      then proof_of_work
             (block\<lparr>nonce := nonce block + 1,
                    hash := generate_hash (block\<lparr>nonce := nonce block + 1\<rparr>)\<rparr>)
      else Some (block, hash block))"

text \<open>
  \<^verbatim>\<open>add_block\<close>: \<^verbatim>\<open>self.chain[-1]\<close> raises \<^verbatim>\<open>IndexError\<close> on an empty chain. The new
  block holds the list that was the pending buffer, and the buffer is rebound to a new
  empty list, so the block's list is never appended to afterwards.
\<close>

definition add_block :: "datetime \<Rightarrow> Blockchain \<Rightarrow> (error + Blockchain) option" where
  "add_block now self =
     (if chain self = [] then Some (Inl IndexError)
      else case proof_of_work
                  (Block_init now (current_transactions self) (hash (last (chain self)))) of
             None \<Rightarrow> None
           | Some (new_block, h) \<Rightarrow>
               Some (Inr (self\<lparr>chain := chain self @ [new_block\<lparr>hash := h\<rparr>],
                               current_transactions := []\<rparr>)))"

definition add_transaction :: "string \<Rightarrow> string \<Rightarrow> int \<Rightarrow> Blockchain \<Rightarrow> Blockchain" where
  "add_transaction s r a self =
     self\<lparr>current_transactions :=
            current_transactions self @ [\<lparr>sender = s, receiver = r, amount = a\<rparr>]\<rparr>"

text \<open>The body of the inner loop of \<^verbatim>\<open>get_balance\<close>: two separate tests.\<close>

definition balance_step :: "string \<Rightarrow> int \<Rightarrow> transaction \<Rightarrow> int" where
  "balance_step person balance tx =
     (let balance = (if sender tx = person then balance - amount tx else balance)
      in if receiver tx = person then balance + amount tx else balance)"

definition get_balance :: "Blockchain \<Rightarrow> string \<Rightarrow> int" where
  "get_balance self person =
     foldl (\<lambda>balance block. foldl (balance_step person) balance (transactions block))
           0 (chain self)"

text \<open>
  \<^verbatim>\<open>max_balance\<close> starts as \<^verbatim>\<open>float('-inf')\<close> and holds an integer from the first
  transaction on.
\<close>

datatype number = NegInf | Num int

text \<open>\<^verbatim>\<open>max(max_balance, balance)\<close>: the second argument when it is greater.\<close>

fun max_number :: "number \<Rightarrow> int \<Rightarrow> number" where
  "max_number NegInf b = Num b"
| "max_number (Num a) b = (if b > a then Num b else Num a)"

text \<open>The body of the inner loop of \<^verbatim>\<open>get_min_max_balance\<close>.\<close>

definition min_max_step ::
  "string \<Rightarrow> int \<times> number \<times> int \<Rightarrow> transaction \<Rightarrow> int \<times> number \<times> int" where
  "min_max_step person s tx =
     (case s of (min_balance, max_balance, balance) \<Rightarrow>
        (let balance = balance_step person balance tx
         in (if balance < min_balance then balance else min_balance,
             max_number max_balance balance, balance)))"

definition get_min_max_balance :: "Blockchain \<Rightarrow> string \<Rightarrow> int \<times> number" where
  "get_min_max_balance self person =
     (case foldl (\<lambda>s block. foldl (min_max_step person) s (transactions block))
                 (0, NegInf, 0) (chain self) of
        (min_balance, max_balance, balance) \<Rightarrow> (min_balance, max_balance))"

text \<open>
  \<^verbatim>\<open>verify_chain\<close>: the loop over \<^verbatim>\<open>range(1, len(self.chain))\<close>, from index \<open>i\<close> on, with
  its two early returns.
\<close>

function verify_chain_from :: "nat \<Rightarrow> Block list \<Rightarrow> bool" where
  "verify_chain_from i bs =
     (if i < length bs then
        (if hash (bs ! i) \<noteq> generate_hash (bs ! i) then False
         else if previous_hash (bs ! i) \<noteq> hash (bs ! (i - 1)) then False
         else verify_chain_from (i + 1) bs)
      else True)"
  by pat_completeness auto
termination
  by (relation "measure (\<lambda>(i, bs). length bs - i)") auto

declare verify_chain_from.simps [simp del]

definition verify_chain :: "Blockchain \<Rightarrow> bool" where
  "verify_chain self = verify_chain_from 1 (chain self)"

fun verify_all_blocks :: "Block list \<Rightarrow> bool" where
  "verify_all_blocks [] = True"
| "verify_all_blocks (block # rest) =
     (if \<not> verify_transactions block then False else verify_all_blocks rest)"

definition verify_all_transactions :: "Blockchain \<Rightarrow> bool" where
  "verify_all_transactions self = verify_all_blocks (chain self)"

section \<open>Stored records\<close>

text \<open>
  \<^verbatim>\<open>datetime.fromisoformat\<close>, on the two layouts that \<^verbatim>\<open>str\<close> of a naive datetime
  writes: \<^verbatim>\<open>YYYY-MM-DD?HH:MM:SS\<close> and the same followed by \<^verbatim>\<open>.ffffff\<close>, with any
  character as the separator at index 10. A string that is not a date and time raises
  \<^verbatim>\<open>ValueError\<close>: \<open>None\<close> here. (Python reads further layouts, such as a date alone;
  they are not modelled, and nothing below is stated about them.)
\<close>

definition digit_val :: "char \<Rightarrow> nat option" where
  "digit_val c = map_of [(CHR ''0'', 0), (CHR ''1'', 1), (CHR ''2'', 2), (CHR ''3'', 3),
     (CHR ''4'', 4), (CHR ''5'', 5), (CHR ''6'', 6), (CHR ''7'', 7), (CHR ''8'', 8),
     (CHR ''9'', 9)] c"

fun parse_digits :: "nat \<Rightarrow> string \<Rightarrow> nat option" where
  "parse_digits acc [] = Some acc"
| "parse_digits acc (c # cs) =
     (case digit_val c of None \<Rightarrow> None | Some d \<Rightarrow> parse_digits (acc * 10 + d) cs)"

definition is_leap :: "nat \<Rightarrow> bool" where
  "is_leap y = (y mod 4 = 0 \<and> (y mod 100 \<noteq> 0 \<or> y mod 400 = 0))"

definition days_in_month :: "nat \<Rightarrow> nat \<Rightarrow> nat" where
  "days_in_month y m =
     (if m = 2 then (if is_leap y then 29 else 28)
      else if m = 4 \<or> m = 6 \<or> m = 9 \<or> m = 11 then 30 else 31)"

text \<open>The values a \<^verbatim>\<open>datetime\<close> object can hold.\<close>

definition valid_datetime :: "datetime \<Rightarrow> bool" where
  "valid_datetime t =
     (1 \<le> year t \<and> year t \<le> 9999 \<and> 1 \<le> month t \<and> month t \<le> 12
      \<and> 1 \<le> day t \<and> day t \<le> days_in_month (year t) (month t)
      \<and> hour t < 24 \<and> minute t < 60 \<and> second t < 60 \<and> microsecond t < 1000000)"

definition fromisoformat :: "string \<Rightarrow> datetime option" where
  "fromisoformat s =
     (if (length s = 19 \<or> length s = 26)
         \<and> s ! 4 = CHR ''-'' \<and> s ! 7 = CHR ''-'' \<and> s ! 13 = CHR '':'' \<and> s ! 16 = CHR '':''
         \<and> (length s = 26 \<longrightarrow> s ! 19 = CHR ''.'')
      then
        (case (parse_digits 0 (take 4 s), parse_digits 0 (take 2 (drop 5 s)),
               parse_digits 0 (take 2 (drop 8 s)), parse_digits 0 (take 2 (drop 11 s)),
               parse_digits 0 (take 2 (drop 14 s)), parse_digits 0 (take 2 (drop 17 s)),
               parse_digits 0 (drop 20 s)) of
           (Some y, Some mo, Some d, Some h, Some mi, Some sec, Some us) \<Rightarrow>
             (let t = \<lparr>year = y, month = mo, day = d, hour = h, minute = mi, second = sec,
                       microsecond = us\<rparr>
              in if valid_datetime t then Some t else None)
         | _ \<Rightarrow> None)
      else None)"

text \<open>
  The dict that \<^verbatim>\<open>to_dict\<close> writes and \<^verbatim>\<open>from_dict\<close> reads: each of the six keys is
  absent (\<open>None\<close>) or holds a value of the type \<^verbatim>\<open>to_dict\<close> writes under it.
  \<^verbatim>\<open>data['nonce']\<close> is \<open>key_nonce data\<close>.
\<close>

record block_dict =
  key_timestamp :: "string option"
  key_transactions :: "transaction list option"
  key_previous_hash :: "string option"
  key_nonce :: "int option"
  key_hash :: "string option"
  key_merkle_root :: "string option"

definition to_dict :: "Block \<Rightarrow> block_dict" where
  "to_dict self =
     \<lparr>key_timestamp = Some (str_datetime (timestamp self)),
      key_transactions = Some (transactions self),
      key_previous_hash = Some (previous_hash self),
      key_nonce = Some (nonce self),
      key_hash = Some (hash self),
      key_merkle_root = Some (merkle_root (merkle_tree self))\<rparr>"

text \<open>
  \<^verbatim>\<open>from_dict\<close>, in the order the source subscripts the dict; a missing key raises
  \<^verbatim>\<open>KeyError\<close>. \<open>now\<close> is the clock reading of the \<^verbatim>\<open>Block(...)\<close> call, overwritten by
  the stored timestamp.
\<close>

definition from_dict :: "datetime \<Rightarrow> block_dict \<Rightarrow> error + Block" where
  "from_dict now data =
     (case key_transactions data of None \<Rightarrow> Inl (KeyError ''transactions'') | Some txs \<Rightarrow>
      case key_previous_hash data of None \<Rightarrow> Inl (KeyError ''previous_hash'') | Some prev \<Rightarrow>
      case key_timestamp data of None \<Rightarrow> Inl (KeyError ''timestamp'') | Some ts \<Rightarrow>
      case fromisoformat ts of None \<Rightarrow> Inl ValueError | Some t \<Rightarrow>
      case key_nonce data of None \<Rightarrow> Inl (KeyError ''nonce'') | Some n \<Rightarrow>
      case key_hash data of None \<Rightarrow> Inl (KeyError ''hash'') | Some h \<Rightarrow>
      case key_merkle_root data of None \<Rightarrow> Inl (KeyError ''merkle_root'') | Some root \<Rightarrow>
        Inr ((Block_init now txs prev)
               \<lparr>timestamp := t, nonce := n, hash := h,
                merkle_tree := MerkleTree_init [] root\<rparr>))"

text \<open>
  The list comprehensions of \<^verbatim>\<open>save_to_file\<close> and \<^verbatim>\<open>load_from_file\<close>, without the
  file: the first record that raises ends the loading.
\<close>

definition chain_data :: "Blockchain \<Rightarrow> block_dict list" where
  "chain_data self = map to_dict (chain self)"

fun from_dicts :: "datetime \<Rightarrow> block_dict list \<Rightarrow> error + Block list" where
  "from_dicts now [] = Inr []"
| "from_dicts now (block_data # rest) =
     (case from_dict now block_data of
        Inl e \<Rightarrow> Inl e
      | Inr block \<Rightarrow>
          (case from_dicts now rest of Inl e \<Rightarrow> Inl e | Inr blocks \<Rightarrow> Inr (block # blocks)))"

definition load_chain :: "datetime \<Rightarrow> block_dict list \<Rightarrow> Blockchain \<Rightarrow> error + Blockchain" where
  "load_chain now records self =
     (case from_dicts now records of Inl e \<Rightarrow> Inl e | Inr blocks \<Rightarrow> Inr (self\<lparr>chain := blocks\<rparr>))"

section \<open>A caller's sequence of calls\<close>

text \<open>
  A ledger is built by \<^verbatim>\<open>Blockchain()\<close> followed by calls of \<^verbatim>\<open>add_transaction\<close> and
  \<^verbatim>\<open>add_block\<close>; each \<^verbatim>\<open>add_block\<close> reads the clock once. A call that raises or never
  returns ends the sequence.
\<close>

datatype operation = Add_transaction string string int | Add_block datetime

fun apply_operation :: "operation \<Rightarrow> Blockchain \<Rightarrow> (error + Blockchain) option" where
  "apply_operation (Add_transaction s r a) self = Some (Inr (add_transaction s r a self))"
| "apply_operation (Add_block now) self = add_block now self"

fun run :: "operation list \<Rightarrow> Blockchain \<Rightarrow> (error + Blockchain) option" where
  "run [] self = Some (Inr self)"
| "run (c # cs) self =
     (case apply_operation c self of
        None \<Rightarrow> None
      | Some (Inl e) \<Rightarrow> Some (Inl e)
      | Some (Inr self') \<Rightarrow> run cs self')"

subsection \<open>The commitment as the specification words it\<close>

text \<open>
  One level of pairing: adjacent elements are combined left to right, the last one with
  itself when the count is odd.
\<close>

fun pair_up :: "string list \<Rightarrow> string list" where
  "pair_up [] = []"
| "pair_up [x] = [sha256_hex (x @ x)]"
| "pair_up (x # y # rest) = sha256_hex (x @ y) # pair_up rest"

lemma length_pair_up: "length (pair_up xs) = (length xs + 1) div 2"
  by (induction xs rule: pair_up.induct) simp_all

text \<open>
  Pairing is repeated until one digest remains, and that digest is the result. (On no
  element there is nothing to pair; the commitment below never asks for it.)
\<close>

function remaining_digest :: "string list \<Rightarrow> string" where
  "remaining_digest [] = ''''"
| "remaining_digest [d] = d"
| "remaining_digest (x # y # rest) = remaining_digest (pair_up (x # y # rest))"
  by pat_completeness auto
termination
  by (relation "measure length") (simp_all add: length_pair_up)

declare remaining_digest.simps(3) [simp del]

text \<open>
  The commitment in the specification's words: the sentinel for no input, the digest of
  the element for one input, the one digest that remains after repeated pairing for two
  or more.
\<close>

fun commit :: "string list \<Rightarrow> string" where
  "commit [] = ''''"
| "commit [x] = sha256_hex x"
| "commit (x # y # rest) = remaining_digest (x # y # rest)"

lemma map_range2_shift:
  "map f (range2 (i + 2) (stop + 2)) = map (\<lambda>k. f (k + 2)) (range2 i stop)"
proof (induction i stop rule: range2.induct)
  case (1 i stop)
  show ?case
  proof (cases "i < stop")
    case True
    then show ?thesis
      using 1 by (simp add: range2_step)
  next
    case False
    then show ?thesis by (simp add: range2_done)
  qed
qed

lemma new_level_pair_up: "new_level ts = pair_up ts"
proof (induction ts rule: pair_up.induct)
  case 1
  show ?case by (simp add: new_level_def range2_done)
next
  case (2 x)
  show ?case by (simp add: new_level_def range2_done hash_pair_def)
next
  case (3 x y rest)
  show ?case
  proof (cases rest)
    case Nil
    then show ?thesis
      by (simp add: new_level_def range2_step range2_done hash_pair_def)
  next
    case (Cons z zs)
    let ?f = "\<lambda>i. hash_pair ((x # y # rest) ! i) ((x # y # rest) ! (i + 1))"
    have len: "length (x # y # rest) - 1 = (length rest - 1) + 2"
      using Cons by simp
    have "map ?f (range2 0 (length (x # y # rest) - 1))
        = ?f 0 # map ?f (range2 (0 + 2) ((length rest - 1) + 2))"
      unfolding len by (subst range2_step) simp_all
    also have "map ?f (range2 (0 + 2) ((length rest - 1) + 2))
        = map (\<lambda>k. ?f (k + 2)) (range2 0 (length rest - 1))"
      by (rule map_range2_shift)
    also have "(\<lambda>k. ?f (k + 2)) = (\<lambda>i. hash_pair (rest ! i) (rest ! (i + 1)))"
      by (rule ext) simp
    finally have loop: "map ?f (range2 0 (length (x # y # rest) - 1))
        = hash_pair x y # map (\<lambda>i. hash_pair (rest ! i) (rest ! (i + 1))) (range2 0 (length rest - 1))"
      by simp
    have odd: "(length (x # y # rest) mod 2 = 1) = (length rest mod 2 = 1)"
      by simp
    have lst: "last (x # y # rest) = last rest"
      using Cons by simp
    have "new_level (x # y # rest) = hash_pair x y # new_level rest"
      unfolding new_level_def loop odd lst by simp
    then show ?thesis
      using 3 by (simp add: hash_pair_def)
  qed
qed

subsection \<open>C5\<close>

lemma create_merkle_root_level:
  "create_merkle_root (x # y # rest) = create_merkle_root (pair_up (x # y # rest))"
proof -
  have "create_merkle_root (x # y # rest) = create_merkle_root (new_level (x # y # rest))"
    by (subst create_merkle_root.simps) simp
  then show ?thesis
    by (simp only: new_level_pair_up)
qed

lemma create_merkle_root_single: "create_merkle_root [x] = sha256_hex x"
  by (subst create_merkle_root.simps) simp

lemma create_merkle_root_remaining:
  "ts \<noteq> [] \<Longrightarrow> create_merkle_root ts = sha256_hex (remaining_digest ts)"
proof (induction ts rule: remaining_digest.induct)
  case 1
  then show ?case by simp
next
  case (2 d)
  show ?case by (simp add: create_merkle_root_single)
next
  case (3 x y rest)
  have "pair_up (x # y # rest) \<noteq> []"
    by simp
  then have "create_merkle_root (pair_up (x # y # rest))
      = sha256_hex (remaining_digest (pair_up (x # y # rest)))"
    by (rule 3)
  then show ?case
    by (simp only: create_merkle_root_level remaining_digest.simps(3))
qed

lemma sha256_hex_ab:
  "sha256_hex ''ab'' = ''fb8e20fc2e4c3f248c60c39bd652f3c1347298bb977b8b4d5903b85055620603''"
  by code_simp

lemma sha256_hex_digest_ab:
  "sha256_hex ''fb8e20fc2e4c3f248c60c39bd652f3c1347298bb977b8b4d5903b85055620603''
     = ''6a866e4029d510139186c362675bb993a91e9132c867722faa519c5711ac1807''"
  by code_simp

text \<open>
  C5 as stated fails on two inputs: pairing \<^verbatim>\<open>['a', 'b']\<close> leaves the one digest
  \<^verbatim>\<open>fb8e20fc...\<close>, the hash of \<^verbatim>\<open>'ab'\<close>, and \<^verbatim>\<open>create_merkle_root\<close> returns
  \<^verbatim>\<open>6a866e40...\<close>, the hash of that digest: the recursive call on the one-element
  level takes the branch for a single input and hashes its element.
\<close>

theorem create_merkle_root_two_counterexample:
  "commit [''a'', ''b''] = ''fb8e20fc2e4c3f248c60c39bd652f3c1347298bb977b8b4d5903b85055620603''
   \<and> create_merkle_root [''a'', ''b'']
       = ''6a866e4029d510139186c362675bb993a91e9132c867722faa519c5711ac1807''
   \<and> create_merkle_root [''a'', ''b''] \<noteq> commit [''a'', ''b'']"
proof -
  have r: "remaining_digest [''a'', ''b'']
      = ''fb8e20fc2e4c3f248c60c39bd652f3c1347298bb977b8b4d5903b85055620603''"
    by (simp add: remaining_digest.simps(3) sha256_hex_ab)
  have c: "create_merkle_root [''a'', ''b'']
      = ''6a866e4029d510139186c362675bb993a91e9132c867722faa519c5711ac1807''"
    by (simp add: create_merkle_root_remaining r sha256_hex_digest_ab)
  show ?thesis
    unfolding c by (simp add: r)
qed

text \<open>
  C5, amended. The Merkle commitment of an ordered sequence of serialized strings is the
  empty string for no input and the digest of the element for one input; for two or more
  inputs it is the digest of the one digest that remains after combining adjacent
  elements left to right, the last element with itself at every level whose count is
  odd, until one digest remains.
\<close>

theorem create_merkle_root_rehashed:
  "create_merkle_root [] = ''''
   \<and> create_merkle_root [x] = sha256_hex x
   \<and> create_merkle_root (x # y # rest) = sha256_hex (remaining_digest (x # y # rest))"
proof -
  have "create_merkle_root [] = ''''"
    by (subst create_merkle_root.simps) simp
  moreover have "create_merkle_root (x # y # rest) = sha256_hex (remaining_digest (x # y # rest))"
    by (rule create_merkle_root_remaining) simp
  ultimately show ?thesis
    by (simp add: create_merkle_root_single)
qed

section \<open>verify_chain\<close>

lemma all_from_step:
  fixes i n :: nat
  assumes "P i"
  shows "(\<forall>j. i + 1 \<le> j \<and> j < n \<longrightarrow> P j) = (\<forall>j. i \<le> j \<and> j < n \<longrightarrow> P j)"
proof
  assume later: "\<forall>j. i + 1 \<le> j \<and> j < n \<longrightarrow> P j"
  show "\<forall>j. i \<le> j \<and> j < n \<longrightarrow> P j"
  proof (intro allI impI)
    fix j
    assume j: "i \<le> j \<and> j < n"
    show "P j"
    proof (cases "j = i")
      case True
      then show ?thesis using assms by simp
    next
      case False
      then have "i + 1 \<le> j" using j by linarith
      then show ?thesis using later j by blast
    qed
  qed
next
  assume "\<forall>j. i \<le> j \<and> j < n \<longrightarrow> P j"
  then show "\<forall>j. i + 1 \<le> j \<and> j < n \<longrightarrow> P j"
    by simp
qed

lemma verify_chain_from_iff:
  "verify_chain_from i bs = (\<forall>j. i \<le> j \<and> j < length bs \<longrightarrow>
      hash (bs ! j) = generate_hash (bs ! j) \<and> previous_hash (bs ! j) = hash (bs ! (j - 1)))"
proof (induction i bs rule: verify_chain_from.induct)
  case (1 i bs)
  show ?case
  proof (cases "i < length bs")
    case False
    then have "verify_chain_from i bs"
      by (subst verify_chain_from.simps) simp
    moreover have "\<not> (i \<le> j \<and> j < length bs)" for j
      using False by linarith
    ultimately show ?thesis
      by blast
  next
    case True
    show ?thesis
    proof (cases "hash (bs ! i) = generate_hash (bs ! i) \<and> previous_hash (bs ! i) = hash (bs ! (i - 1))")
      case False
      then have "\<not> verify_chain_from i bs"
        using True by (subst verify_chain_from.simps) auto
      moreover have "\<not> (\<forall>j. i \<le> j \<and> j < length bs \<longrightarrow>
          hash (bs ! j) = generate_hash (bs ! j) \<and> previous_hash (bs ! j) = hash (bs ! (j - 1)))"
        using True False by blast
      ultimately show ?thesis by simp
    next
      case ok: True
      then have "verify_chain_from i bs = verify_chain_from (i + 1) bs"
        using True by (subst verify_chain_from.simps) simp
      also have "\<dots> = (\<forall>j. i + 1 \<le> j \<and> j < length bs \<longrightarrow>
          hash (bs ! j) = generate_hash (bs ! j) \<and> previous_hash (bs ! j) = hash (bs ! (j - 1)))"
        using 1 True ok by simp
      also have "\<dots> = (\<forall>j. i \<le> j \<and> j < length bs \<longrightarrow>
          hash (bs ! j) = generate_hash (bs ! j) \<and> previous_hash (bs ! j) = hash (bs ! (j - 1)))"
        using ok
        by (rule all_from_step [where P = "\<lambda>j. hash (bs ! j) = generate_hash (bs ! j)
              \<and> previous_hash (bs ! j) = hash (bs ! (j - 1))"])
      finally show ?thesis .
    qed
  qed
qed

lemma length_rounds: "length s = 8 \<Longrightarrow> length (rounds s ks ws) = 8"
  by (induction s ks ws rule: rounds.induct) (simp_all add: round256_def step_def)

lemma length_compress: "length h = 8 \<Longrightarrow> length (compress h blk) = 8"
  by (simp add: compress_def length_rounds)

lemma length_foldl_compress: "length h = 8 \<Longrightarrow> length (foldl compress h bs) = 8"
  by (induction bs arbitrary: h) (simp_all add: length_compress)

lemma length_hexdigest: "length (hexdigest h) = 8 * length h"
  by (induction h) (simp_all add: hexdigest_def hex32_def)

lemma length_sha256_hex: "length (sha256_hex s) = 64"
  by (simp add: sha256_hex_def length_hexdigest sha256_def length_foldl_compress H256_def)

definition example_now0 :: datetime where
  "example_now0 = \<lparr>year = 2024, month = 5, day = 1, hour = 12, minute = 0, second = 0,
                     microsecond = 0\<rparr>"

definition example_now1 :: datetime where
  "example_now1 = \<lparr>year = 2024, month = 5, day = 1, hour = 12, minute = 0, second = 1,
                     microsecond = 35953\<rparr>"

text \<open>
  A two-block chain whose genesis block carries a stored hash that is not the hash of its
  fields, and whose second block is built on that stored hash.
\<close>

definition stale_genesis_chain :: Blockchain where
  "stale_genesis_chain =
     \<lparr>chain = [(Block_init example_now0 [] ''0'')\<lparr>hash := ''stale''\<rparr>,
               Block_init example_now1 [] ''stale''],
      current_transactions = []\<rparr>"

lemma hash_Block_init: "hash (Block_init now txs prev) = generate_hash (Block_init now txs prev)"
  by (simp add: Block_init_def generate_hash_def)

subsection \<open>C6\<close>

text \<open>
  C6. \<^verbatim>\<open>verify_chain()\<close> returns true if and only if, for every block at index
  \<open>i \<ge> 1\<close>, the stored hash equals a fresh recomputation from the block's current fields
  and its \<^verbatim>\<open>previous_hash\<close> equals the predecessor's stored hash; a mismatch at any such
  index makes it return false; the genesis block's own stored hash is never checked
  against a recomputation, so a chain whose only inconsistency is in the genesis block's
  own hash still verifies as true, and no other field of the genesis block matters.
\<close>

theorem verify_chain_iff:
  "(verify_chain self \<longleftrightarrow>
      (\<forall>i. 1 \<le> i \<and> i < length (chain self) \<longrightarrow>
         hash (chain self ! i) = generate_hash (chain self ! i)
         \<and> previous_hash (chain self ! i) = hash (chain self ! (i - 1))))
   \<and> (1 \<le> k \<and> k < length (chain self)
        \<and> (hash (chain self ! k) \<noteq> generate_hash (chain self ! k)
           \<or> previous_hash (chain self ! k) \<noteq> hash (chain self ! (k - 1)))
       \<longrightarrow> \<not> verify_chain self)
   \<and> (chain self \<noteq> [] \<and> hash (chain self ! 0) \<noteq> generate_hash (chain self ! 0)
        \<and> (\<forall>i. 1 \<le> i \<and> i < length (chain self) \<longrightarrow>
              hash (chain self ! i) = generate_hash (chain self ! i)
              \<and> previous_hash (chain self ! i) = hash (chain self ! (i - 1)))
       \<longrightarrow> verify_chain self)
   \<and> (chain self = g # rest \<longrightarrow>
        verify_chain (self\<lparr>chain := g\<lparr>timestamp := t, transactions := txs, previous_hash := p,
                                     merkle_tree := m, nonce := n\<rparr> # rest\<rparr>)
          = verify_chain self)"
proof -
  have iff: "verify_chain s \<longleftrightarrow>
      (\<forall>i. 1 \<le> i \<and> i < length (chain s) \<longrightarrow>
         hash (chain s ! i) = generate_hash (chain s ! i)
         \<and> previous_hash (chain s ! i) = hash (chain s ! (i - 1)))" for s
    unfolding verify_chain_def by (rule verify_chain_from_iff)
  have genesis: "verify_chain (self\<lparr>chain := g\<lparr>timestamp := t, transactions := txs,
        previous_hash := p, merkle_tree := m, nonce := n\<rparr> # rest\<rparr>) = verify_chain self"
    if c: "chain self = g # rest"
  proof -
    let ?g = "g\<lparr>timestamp := t, transactions := txs, previous_hash := p,
                 merkle_tree := m, nonce := n\<rparr>"
    have body: "(hash ((?g # rest) ! i) = generate_hash ((?g # rest) ! i)
          \<and> previous_hash ((?g # rest) ! i) = hash ((?g # rest) ! (i - 1)))
        = (hash ((g # rest) ! i) = generate_hash ((g # rest) ! i)
          \<and> previous_hash ((g # rest) ! i) = hash ((g # rest) ! (i - 1)))"
      if "1 \<le> i" for i
    proof -
      from that have "i \<noteq> 0"
        by simp
      then obtain j where i: "i = Suc j"
        by (cases i) auto
      have "hash ((?g # rest) ! j) = hash ((g # rest) ! j)"
        by (cases j) simp_all
      then show ?thesis
        by (simp add: i)
    qed
    have "verify_chain (self\<lparr>chain := ?g # rest\<rparr>) \<longleftrightarrow>
        (\<forall>i. 1 \<le> i \<and> i < length (?g # rest) \<longrightarrow>
           hash ((?g # rest) ! i) = generate_hash ((?g # rest) ! i)
           \<and> previous_hash ((?g # rest) ! i) = hash ((?g # rest) ! (i - 1)))"
      unfolding iff by simp
    also have "\<dots> \<longleftrightarrow>
        (\<forall>i. 1 \<le> i \<and> i < length (g # rest) \<longrightarrow>
           hash ((g # rest) ! i) = generate_hash ((g # rest) ! i)
           \<and> previous_hash ((g # rest) ! i) = hash ((g # rest) ! (i - 1)))"
      using body by auto
    also have "\<dots> \<longleftrightarrow> verify_chain self"
      unfolding iff c by simp
    finally show ?thesis .
  qed
  show ?thesis
    using iff [of self] genesis by blast
qed

theorem verify_chain_iff_witness:
  "chain stale_genesis_chain \<noteq> []
   \<and> hash (chain stale_genesis_chain ! 0) \<noteq> generate_hash (chain stale_genesis_chain ! 0)
   \<and> verify_chain stale_genesis_chain
   \<and> \<not> verify_chain (stale_genesis_chain\<lparr>chain :=
          (chain stale_genesis_chain)[1 := (chain stale_genesis_chain ! 1)\<lparr>previous_hash := ''0''\<rparr>]\<rparr>)
   \<and> verify_chain (stale_genesis_chain\<lparr>chain :=
          (chain stale_genesis_chain ! 0)\<lparr>timestamp := example_now1, transactions := [],
             previous_hash := ''1'', merkle_tree := \<lparr>merkle_root = ''0''\<rparr>, nonce := 7\<rparr>
          # tl (chain stale_genesis_chain)\<rparr>)"
proof -
  have stale: "hash (chain stale_genesis_chain ! 0) \<noteq> generate_hash (chain stale_genesis_chain ! 0)"
  proof
    assume "hash (chain stale_genesis_chain ! 0) = generate_hash (chain stale_genesis_chain ! 0)"
    then have "length ''stale'' = length (generate_hash (chain stale_genesis_chain ! 0))"
      by (simp add: stale_genesis_chain_def)
    then show False
      by (simp add: generate_hash_def length_sha256_hex)
  qed
  have links: "\<forall>i. 1 \<le> i \<and> i < length (chain stale_genesis_chain) \<longrightarrow>
      hash (chain stale_genesis_chain ! i) = generate_hash (chain stale_genesis_chain ! i)
      \<and> previous_hash (chain stale_genesis_chain ! i) = hash (chain stale_genesis_chain ! (i - 1))"
  proof (intro allI impI)
    fix i
    assume "1 \<le> i \<and> i < length (chain stale_genesis_chain)"
    then have "i = 1"
      by (simp add: stale_genesis_chain_def)
    then show "hash (chain stale_genesis_chain ! i) = generate_hash (chain stale_genesis_chain ! i)
      \<and> previous_hash (chain stale_genesis_chain ! i) = hash (chain stale_genesis_chain ! (i - 1))"
      by (simp add: stale_genesis_chain_def hash_Block_init) (simp add: Block_init_def)
  qed
  have ne: "chain stale_genesis_chain \<noteq> []"
    by (simp add: stale_genesis_chain_def)
  have ok: "verify_chain stale_genesis_chain"
    using verify_chain_iff [of stale_genesis_chain] ne stale links by blast
  let ?broken = "stale_genesis_chain\<lparr>chain :=
      (chain stale_genesis_chain)[1 := (chain stale_genesis_chain ! 1)\<lparr>previous_hash := ''0''\<rparr>]\<rparr>"
  have "1 \<le> (1::nat) \<and> 1 < length (chain ?broken)
      \<and> (hash (chain ?broken ! 1) \<noteq> generate_hash (chain ?broken ! 1)
          \<or> previous_hash (chain ?broken ! 1) \<noteq> hash (chain ?broken ! (1 - 1)))"
    by (simp add: stale_genesis_chain_def)
  then have broken: "\<not> verify_chain ?broken"
    using verify_chain_iff [of ?broken 1] by blast
  have split: "chain stale_genesis_chain
      = chain stale_genesis_chain ! 0 # tl (chain stale_genesis_chain)"
    by (simp add: stale_genesis_chain_def)
  have "verify_chain (stale_genesis_chain\<lparr>chain :=
          (chain stale_genesis_chain ! 0)\<lparr>timestamp := example_now1, transactions := [],
             previous_hash := ''1'', merkle_tree := \<lparr>merkle_root = ''0''\<rparr>, nonce := 7\<rparr>
          # tl (chain stale_genesis_chain)\<rparr>) = verify_chain stale_genesis_chain"
    using verify_chain_iff [where self = stale_genesis_chain
        and g = "chain stale_genesis_chain ! 0" and rest = "tl (chain stale_genesis_chain)"
        and t = example_now1 and txs = "[]" and p = "''1''"
        and m = "\<lparr>merkle_root = ''0''\<rparr>" and n = 7] split
    by blast
  then show ?thesis
    using ne stale ok broken by blast
qed

section \<open>A computed run\<close>

lemma zpad_numeral:
  "zpad (numeral k) n = zpad (pred_numeral k) (n div 10) @ [digit_char (n mod 10)]"
  by (subst numeral_eq_Suc) (simp only: zpad.simps)

lemma str_nat_small: "n < 10 \<Longrightarrow> str_nat n = [digit_char n]"
  by (subst str_nat.simps) simp

lemma str_nat_large: "\<not> n < 10 \<Longrightarrow> str_nat n = str_nat (n div 10) @ [digit_char (n mod 10)]"
  by (subst str_nat.simps) simp

lemmas str_eval = zpad_numeral str_nat_small str_nat_large digit_char_def str_int_def
  str_datetime_def str_tx_def str_txs_def repr_str_def repr_char_def printable_def
  squote_def dquote_def bslash_def hexchar_def Let_def

definition example_tx :: transaction where
  "example_tx = \<lparr>sender = ''Alice'', receiver = ''Bob'', amount = 50\<rparr>"

definition example_genesis :: Block where
  "example_genesis =
     \<lparr>timestamp = example_now0, transactions = [], previous_hash = ''0'',
      merkle_tree = \<lparr>merkle_root = ''''\<rparr>, nonce = 0,
      hash = ''94ca87b824d93ccfcd23301e07ae1e38089c813eb5c62fa04e3521aed941a8a0''\<rparr>"

definition example_block :: Block where
  "example_block =
     \<lparr>timestamp = example_now1, transactions = [example_tx],
      previous_hash = ''94ca87b824d93ccfcd23301e07ae1e38089c813eb5c62fa04e3521aed941a8a0'',
      merkle_tree =
        \<lparr>merkle_root = ''d6c7e5d65a23f3d29831531f5a2b26eb7d43f653b07d2c0ad66bb680f03cc73f''\<rparr>,
      nonce = 1,
      hash = ''0000f0ec4a47b9ae6d2c18154c222e9ea03ec175fb03c65e27d375045e81e3c8''\<rparr>"

definition example_ledger :: Blockchain where
  "example_ledger = \<lparr>chain = [example_genesis, example_block], current_transactions = []\<rparr>"

lemma sha256_hex_genesis:
  "sha256_hex ''2024-05-01 12:00:00[]00''
     = ''94ca87b824d93ccfcd23301e07ae1e38089c813eb5c62fa04e3521aed941a8a0''"
  by code_simp

lemma sha256_hex_tx:
  "sha256_hex ''{'sender': 'Alice', 'receiver': 'Bob', 'amount': 50}''
     = ''d6c7e5d65a23f3d29831531f5a2b26eb7d43f653b07d2c0ad66bb680f03cc73f''"
  by code_simp

lemma sha256_hex_nonce0:
  "sha256_hex ''2024-05-01 12:00:01.035953[{'sender': 'Alice', 'receiver': 'Bob', 'amount': 50}]94ca87b824d93ccfcd23301e07ae1e38089c813eb5c62fa04e3521aed941a8a00d6c7e5d65a23f3d29831531f5a2b26eb7d43f653b07d2c0ad66bb680f03cc73f''
     = ''6139860d4905807f1c3dd2c32f888095a3cb90fed11b6525a95aaf31beeca14e''"
  by code_simp

lemma sha256_hex_nonce1:
  "sha256_hex ''2024-05-01 12:00:01.035953[{'sender': 'Alice', 'receiver': 'Bob', 'amount': 50}]94ca87b824d93ccfcd23301e07ae1e38089c813eb5c62fa04e3521aed941a8a01d6c7e5d65a23f3d29831531f5a2b26eb7d43f653b07d2c0ad66bb680f03cc73f''
     = ''0000f0ec4a47b9ae6d2c18154c222e9ea03ec175fb03c65e27d375045e81e3c8''"
  by code_simp

lemma MerkleTree_init_Nil: "MerkleTree_init [] '''' = \<lparr>merkle_root = ''''\<rparr>"
  by (simp add: MerkleTree_init_def create_merkle_root.simps)

lemma Block_init_genesis: "Block_init example_now0 [] ''0'' = example_genesis"
  by (simp add: Block_init_def MerkleTree_init_Nil generate_hash_def example_genesis_def
      example_now0_def str_eval sha256_hex_genesis)

lemma MerkleTree_init_example:
  "MerkleTree_init (map str_tx [example_tx]) ''''
     = \<lparr>merkle_root = ''d6c7e5d65a23f3d29831531f5a2b26eb7d43f653b07d2c0ad66bb680f03cc73f''\<rparr>"
  by (simp add: MerkleTree_init_def create_merkle_root.simps [of "[x]" for x] example_tx_def
      str_eval sha256_hex_tx)

lemma Block_init_example:
  "Block_init example_now1 [example_tx] (hash example_genesis)
     = example_block\<lparr>nonce := 0,
         hash := ''6139860d4905807f1c3dd2c32f888095a3cb90fed11b6525a95aaf31beeca14e''\<rparr>"
  unfolding Block_init_def MerkleTree_init_example
  by (simp add: generate_hash_def example_block_def example_genesis_def example_tx_def
      example_now1_def str_eval sha256_hex_nonce0)

lemma generate_hash_example: "generate_hash example_block = hash example_block"
  by (simp add: generate_hash_def example_block_def example_tx_def
      example_now1_def str_eval sha256_hex_nonce1)

lemma proof_of_work_example:
  "proof_of_work (Block_init example_now1 [example_tx] (hash example_genesis))
     = Some (example_block, hash example_block)"
proof -
  let ?b0 = "example_block\<lparr>nonce := 0,
      hash := ''6139860d4905807f1c3dd2c32f888095a3cb90fed11b6525a95aaf31beeca14e''\<rparr>"
  have "proof_of_work ?b0 = proof_of_work example_block"
    by (subst proof_of_work.simps)
      (simp add: example_block_def example_tx_def example_now1_def generate_hash_def str_eval
        sha256_hex_nonce1)
  also have "\<dots> = Some (example_block, hash example_block)"
    by (subst proof_of_work.simps) (simp add: example_block_def)
  finally show ?thesis
    by (simp only: Block_init_example)
qed

lemma example_ledger_run:
  "add_block example_now1 (add_transaction ''Alice'' ''Bob'' 50 (Blockchain_init example_now0))
     = Some (Inr example_ledger)"
proof -
  have pending: "add_transaction ''Alice'' ''Bob'' 50 (Blockchain_init example_now0)
      = \<lparr>chain = [example_genesis], current_transactions = [example_tx]\<rparr>"
    by (simp add: add_transaction_def Blockchain_init_def create_genesis_block_def
        Block_init_genesis example_tx_def)
  show ?thesis
    unfolding pending add_block_def
    by (simp add: proof_of_work_example example_ledger_def)
qed

section \<open>get_min_max_balance\<close>








lemma get_min_max_balance_fresh:
  "get_min_max_balance (Blockchain_init now) person = (0, NegInf)"
  by (simp add: get_min_max_balance_def Blockchain_init_def create_genesis_block_def Block_init_def)

subsection \<open>C10\<close>



subsection \<open>C1\<close>

text \<open>
  C1. \<^verbatim>\<open>get_min_max_balance(person)\<close> is to return the minimum and the maximum of the
  running balance with both seeded at 0, so that the minimum is at most 0 and the maximum
  at least 0. The code seeds the minimum at 0 and the maximum at \<^verbatim>\<open>float('-inf')\<close>: on a
  new ledger the maximum returned is \<open>-inf\<close>, and for Alice, who has only sent 50, it is
  \<open>-50\<close>.
\<close>

theorem get_min_max_balance_seed:
  "get_min_max_balance (Blockchain_init now) person = (0, NegInf)
   \<and> get_min_max_balance example_ledger ''Alice'' = (- 50, Num (- 50))"
  by (simp add: get_min_max_balance_fresh)
     (simp add: get_min_max_balance_def example_ledger_def example_genesis_def
        example_block_def example_tx_def min_max_step_def balance_step_def)

section \<open>proof_of_work\<close>

lemma generate_hash_hash_update [simp]: "generate_hash (b\<lparr>hash := h\<rparr>) = generate_hash b"
  by (simp add: generate_hash_def)

definition same_content :: "Block \<Rightarrow> Block \<Rightarrow> bool" where
  "same_content a b = (timestamp a = timestamp b \<and> transactions a = transactions b
     \<and> previous_hash a = previous_hash b \<and> merkle_tree a = merkle_tree b)"

lemma proof_of_work_Some:
  "proof_of_work b = Some r \<Longrightarrow>
     snd r = hash (fst r) \<and> take 4 (hash (fst r)) = ''0000''
     \<and> nonce b \<le> nonce (fst r) \<and> same_content (fst r) b
     \<and> (hash b = generate_hash b \<longrightarrow> hash (fst r) = generate_hash (fst r))
     \<and> (take 4 (hash b) \<noteq> ''0000'' \<longrightarrow> hash (fst r) = generate_hash (fst r))
     \<and> (take 4 (hash b) = ''0000'' \<longrightarrow> fst r = b)"
proof (induction rule: proof_of_work.raw_induct [rotated 1, consumes 1])
  case (1 proof_of_work' block r)
  show ?case
  proof (cases "take 4 (hash block) \<noteq> ''0000''")
    case False
    then show ?thesis
      using 1(2) by (auto simp: same_content_def)
  next
    case True
    let ?next = "block\<lparr>nonce := nonce block + 1,
        hash := generate_hash (block\<lparr>nonce := nonce block + 1\<rparr>)\<rparr>"
    have call: "proof_of_work' ?next = Some r"
      using 1(2) True by simp
    have fresh: "hash ?next = generate_hash ?next"
      by (simp add: generate_hash_def)
    note ih = 1(1) [OF call]
    have "hash (fst r) = generate_hash (fst r)"
      using ih fresh by blast
    moreover have "nonce block \<le> nonce (fst r)"
      using ih by simp
    moreover have "same_content (fst r) block"
      using ih by (simp add: same_content_def)
    ultimately show ?thesis
      using ih True by blast
  qed
qed



subsection \<open>C4\<close>





section \<open>datetime round trip\<close>

lemma length_zpad [simp]: "length (zpad w n) = w"
  by (induction w arbitrary: n) simp_all

lemma digit_val_digit_char: "d < 10 \<Longrightarrow> digit_val (digit_char d) = Some d"
proof -
  assume "d < 10"
  then have "d \<in> {0, 1, 2, 3, 4, 5, 6, 7, 8, 9}"
    by auto
  then show ?thesis
    by (auto simp: digit_val_def digit_char_def)
qed

lemma parse_digits_append:
  "parse_digits acc (xs @ ys) =
     (case parse_digits acc xs of None \<Rightarrow> None | Some a \<Rightarrow> parse_digits a ys)"
  by (induction xs arbitrary: acc) (simp_all split: option.splits)

lemma parse_digits_zpad: "parse_digits acc (zpad w n) = Some (acc * 10 ^ w + n mod 10 ^ w)"
proof (induction w arbitrary: n acc)
  case 0
  show ?case by simp
next
  case (Suc w)
  have "n mod (10 * 10 ^ w) = 10 * (n div 10 mod 10 ^ w) + n mod 10"
    by (rule mod_mult2_eq)
  then show ?case
    by (simp add: parse_digits_append Suc digit_val_digit_char algebra_simps)
qed

lemma parse_zpad: "n < 10 ^ w \<Longrightarrow> parse_digits 0 (zpad w n) = Some n"
  by (simp add: parse_digits_zpad)

lemma fromisoformat_str_datetime:
  assumes "valid_datetime t"
  shows "fromisoformat (str_datetime t) = Some t"
proof -
  have y: "year t < 10 ^ 4" and mo: "month t < 10 ^ 2" and d: "day t < 10 ^ 2"
    and h: "hour t < 10 ^ 2" and mi: "minute t < 10 ^ 2" and s: "second t < 10 ^ 2"
    and us: "microsecond t < 10 ^ 6"
    using assms by (auto simp: valid_datetime_def days_in_month_def split: if_splits)
  note p = parse_zpad [OF y] parse_zpad [OF mo] parse_zpad [OF d] parse_zpad [OF h]
    parse_zpad [OF mi] parse_zpad [OF s] parse_zpad [OF us]
  have rec: "\<lparr>year = year t, month = month t, day = day t, hour = hour t,
      minute = minute t, second = second t, microsecond = us'\<rparr> = t"
    if "us' = microsecond t" for us'
    using that by simp
  show ?thesis
  proof (cases "microsecond t = 0")
    case True
    then show ?thesis
      using assms by (simp add: fromisoformat_def str_datetime_def p nth_append rec)
  next
    case False
    then show ?thesis
      using assms by (simp add: fromisoformat_def str_datetime_def p nth_append rec)
  qed
qed

section \<open>add_block\<close>

lemma add_block_Inr:
  assumes "add_block now self = Some (Inr self')"
  shows "chain self \<noteq> []
    \<and> (\<exists>b. proof_of_work (Block_init now (current_transactions self) (hash (last (chain self))))
              = Some (b, hash b)
          \<and> self' = self\<lparr>chain := chain self @ [b], current_transactions := []\<rparr>)"
proof -
  have ne: "chain self \<noteq> []"
    using assms by (auto simp: add_block_def split: if_splits)
  let ?new = "Block_init now (current_transactions self) (hash (last (chain self)))"
  obtain b h where pow: "proof_of_work ?new = Some (b, h)"
    and s': "self' = self\<lparr>chain := chain self @ [b\<lparr>hash := h\<rparr>], current_transactions := []\<rparr>"
    using assms ne by (auto simp: add_block_def split: option.splits)
  have h: "h = hash b"
    using proof_of_work_Some [OF pow] by simp
  show ?thesis
    using ne pow s' h by auto
qed

lemma add_block_new_block:
  assumes "add_block now self = Some (Inr self')"
  shows "chain self \<noteq> [] \<and> chain self' = chain self @ [last (chain self')]
    \<and> previous_hash (last (chain self')) = hash (last (chain self))
    \<and> transactions (last (chain self')) = current_transactions self
    \<and> hash (last (chain self')) = generate_hash (last (chain self'))
    \<and> take 4 (hash (last (chain self'))) = ''0000''
    \<and> current_transactions self' = []"
proof -
  let ?new = "Block_init now (current_transactions self) (hash (last (chain self)))"
  from add_block_Inr [OF assms] obtain b where ne: "chain self \<noteq> []"
    and pow: "proof_of_work ?new = Some (b, hash b)"
    and s': "self' = self\<lparr>chain := chain self @ [b], current_transactions := []\<rparr>"
    by blast
  have new: "hash ?new = generate_hash ?new" "previous_hash ?new = hash (last (chain self))"
    "transactions ?new = current_transactions self"
    by (simp_all add: Block_init_def generate_hash_def)
  note r = proof_of_work_Some [OF pow]
  have sealed: "take 4 (hash b) = ''0000''"
    using r by simp
  have same: "same_content b ?new"
    using r by simp
  have recomputed: "hash b = generate_hash b"
    using r new(1) by simp
  have last: "last (chain self') = b" "chain self' = chain self @ [b]"
    "current_transactions self' = []"
    by (simp_all add: s')
  have "previous_hash b = hash (last (chain self))" "transactions b = current_transactions self"
    using same new by (simp_all add: same_content_def)
  then show ?thesis
    using ne sealed recomputed last by simp
qed

lemma verify_chain_append:
  assumes ne: "bs \<noteq> []" and ok: "verify_chain_from 1 bs"
    and h: "hash b = generate_hash b" and p: "previous_hash b = hash (last bs)"
  shows "verify_chain_from 1 (bs @ [b])"
  unfolding verify_chain_from_iff
proof (intro allI impI)
  fix j
  assume j: "1 \<le> j \<and> j < length (bs @ [b])"
  show "hash ((bs @ [b]) ! j) = generate_hash ((bs @ [b]) ! j)
      \<and> previous_hash ((bs @ [b]) ! j) = hash ((bs @ [b]) ! (j - 1))"
  proof (cases "j < length bs")
    case True
    then have "(bs @ [b]) ! j = bs ! j" "(bs @ [b]) ! (j - 1) = bs ! (j - 1)"
      by (simp_all add: nth_append)
    then show ?thesis
      using ok j True unfolding verify_chain_from_iff by simp
  next
    case False
    then have eq: "j = length bs"
      using j by simp
    have "(bs @ [b]) ! (j - 1) = last bs"
      using ne eq by (simp add: nth_append last_conv_nth)
    then show ?thesis
      using h p eq by simp
  qed
qed

lemma add_block_verify_chain:
  assumes "add_block now self = Some (Inr self')" and "verify_chain self"
  shows "verify_chain self'"
proof -
  note nb = add_block_new_block [OF assms(1)]
  have "verify_chain_from 1 (chain self @ [last (chain self')])"
    using nb assms(2) by (intro verify_chain_append) (simp_all add: verify_chain_def)
  then show ?thesis
    using nb by (simp add: verify_chain_def)
qed

lemma verify_chain_single: "verify_chain_from (Suc 0) [b]"
  by (subst verify_chain_from.simps) simp

lemma run_fresh:
  "run cs self = Some (Inr self') \<Longrightarrow> chain self \<noteq> [] \<Longrightarrow> verify_chain self \<Longrightarrow>
     chain self' \<noteq> [] \<and> verify_chain self'"
proof (induction cs arbitrary: self)
  case Nil
  then show ?case by simp
next
  case (Cons c cs)
  from Cons.prems(1) obtain mid where step: "apply_operation c self = Some (Inr mid)"
    and rest: "run cs mid = Some (Inr self')"
    by (auto split: option.splits sum.splits)
  have "chain mid \<noteq> [] \<and> verify_chain mid"
  proof (cases c)
    case (Add_transaction s r a)
    then show ?thesis
      using step Cons.prems by (auto simp: add_transaction_def verify_chain_def)
  next
    case (Add_block now)
    then have ab: "add_block now self = Some (Inr mid)"
      using step by simp
    have "chain mid \<noteq> []"
      using add_block_new_block [OF ab] by (metis snoc_eq_iff_butlast)
    then show ?thesis
      using add_block_verify_chain [OF ab] Cons.prems by simp
  qed
  then show ?case
    using Cons.IH [OF rest] by simp
qed

lemma Blockchain_init_fresh:
  "chain (Blockchain_init now) = [Block_init now [] ''0''] \<and> verify_chain (Blockchain_init now)"
  by (simp add: Blockchain_init_def create_genesis_block_def verify_chain_def verify_chain_single)

lemma run_Blockchain_init:
  "run cs (Blockchain_init now) = Some (Inr self) \<Longrightarrow> chain self \<noteq> [] \<and> verify_chain self"
  using run_fresh [of cs "Blockchain_init now" self] Blockchain_init_fresh [of now] by simp

lemma run_no_error: "chain self \<noteq> [] \<Longrightarrow> run cs self \<noteq> Some (Inl e)"
proof (induction cs arbitrary: self)
  case Nil
  then show ?case by simp
next
  case (Cons c cs)
  show ?case
  proof (cases c)
    case (Add_transaction s r a)
    then show ?thesis
      using Cons.IH [of "add_transaction s r a self"] Cons.prems
      by (simp add: add_transaction_def)
  next
    case (Add_block now)
    show ?thesis
    proof (cases "add_block now self")
      case None
      then show ?thesis using Add_block by simp
    next
      case (Some r)
      show ?thesis
      proof (cases r)
        case (Inl e')
        then show ?thesis
          using Some Cons.prems by (auto simp: add_block_def split: option.splits)
      next
        case (Inr mid)
        then have "chain mid \<noteq> []"
          using add_block_new_block [of now self mid] Some by (metis snoc_eq_iff_butlast)
        then show ?thesis
          using Cons.IH [of mid] Some Inr Add_block by simp
      qed
    qed
  qed
qed

lemma verify_chain_from_nth:
  assumes "verify_chain_from 1 bs" and "1 \<le> j" and "j < length bs"
  shows "hash (bs ! j) = generate_hash (bs ! j)" and "previous_hash (bs ! j) = hash (bs ! (j - 1))"
  using assms unfolding verify_chain_from_iff by blast+

lemma tamper_hash:
  assumes ok: "verify_chain_from 1 bs" and i: "1 \<le> i" "i < length bs"
    and h: "h \<noteq> hash (bs ! i)"
  shows "\<not> verify_chain_from 1 (bs[i := (bs ! i)\<lparr>hash := h\<rparr>])"
proof
  let ?bs = "bs[i := (bs ! i)\<lparr>hash := h\<rparr>]"
  assume bad: "verify_chain_from 1 ?bs"
  have len: "i < length ?bs"
    using i by simp
  have "hash (?bs ! i) = generate_hash (?bs ! i)"
    by (rule verify_chain_from_nth(1) [OF bad i(1) len])
  moreover have "?bs ! i = (bs ! i)\<lparr>hash := h\<rparr>"
    using i by simp
  ultimately have "h = generate_hash (bs ! i)"
    by (simp add: generate_hash_def)
  moreover have "hash (bs ! i) = generate_hash (bs ! i)"
    by (rule verify_chain_from_nth(1) [OF ok i])
  ultimately show False
    using h by simp
qed

lemma tamper_previous_hash:
  assumes ok: "verify_chain_from 1 bs" and i: "1 \<le> i" "i < length bs"
    and p: "p \<noteq> previous_hash (bs ! i)"
  shows "\<not> verify_chain_from 1 (bs[i := (bs ! i)\<lparr>previous_hash := p\<rparr>])"
proof
  let ?bs = "bs[i := (bs ! i)\<lparr>previous_hash := p\<rparr>]"
  assume bad: "verify_chain_from 1 ?bs"
  have len: "i < length ?bs"
    using i by simp
  have "previous_hash (?bs ! i) = hash (?bs ! (i - 1))"
    by (rule verify_chain_from_nth(2) [OF bad i(1) len])
  moreover have "?bs ! i = (bs ! i)\<lparr>previous_hash := p\<rparr>"
    using i by simp
  moreover have "i - 1 \<noteq> i"
    using i by simp
  then have "?bs ! (i - 1) = bs ! (i - 1)"
    by (simp add: nth_list_update_neq)
  ultimately have "p = hash (bs ! (i - 1))"
    by simp
  moreover have "previous_hash (bs ! i) = hash (bs ! (i - 1))"
    by (rule verify_chain_from_nth(2) [OF ok i])
  ultimately show False
    using p by simp
qed

lemma tamper_genesis_hash:
  assumes ok: "verify_chain_from 1 bs" and ne: "bs \<noteq> []" and h: "h \<noteq> hash (bs ! 0)"
  shows "verify_chain_from 1 (bs[0 := (bs ! 0)\<lparr>hash := h\<rparr>]) = (length bs = 1)"
proof (cases "length bs = 1")
  case True
  then have "\<not> (1 \<le> j \<and> j < length (bs[0 := (bs ! 0)\<lparr>hash := h\<rparr>]))" for j
    by simp
  then show ?thesis
    using True unfolding verify_chain_from_iff by blast
next
  case False
  then have len: "1 < length bs"
    using ne by (cases bs) auto
  let ?bs = "bs[0 := (bs ! 0)\<lparr>hash := h\<rparr>]"
  have link: "previous_hash (bs ! 1) = hash (bs ! (1 - 1))"
    by (rule verify_chain_from_nth(2) [OF ok _ len]) simp
  have "\<not> verify_chain_from 1 ?bs"
  proof
    assume bad: "verify_chain_from 1 ?bs"
    have len': "1 < length ?bs"
      using len by simp
    have "previous_hash (?bs ! 1) = hash (?bs ! (1 - 1))"
      by (rule verify_chain_from_nth(2) [OF bad _ len']) simp
    moreover have "?bs ! 1 = bs ! 1"
      by simp
    moreover have "0 < length bs"
      using len by arith
    then have "?bs ! (1 - 1) = (bs ! 0)\<lparr>hash := h\<rparr>"
      by simp
    ultimately have "previous_hash (bs ! 1) = h"
      by simp
    then show False
      using link h by simp
  qed
  then show ?thesis
    using False by simp
qed

lemma tamper_genesis_previous_hash:
  "verify_chain_from 1 (bs[0 := (bs ! 0)\<lparr>previous_hash := p\<rparr>]) = verify_chain_from 1 bs"
proof -
  let ?bs = "bs[0 := (bs ! 0)\<lparr>previous_hash := p\<rparr>]"
  have same: "(hash (?bs ! j) = generate_hash (?bs ! j) \<and> previous_hash (?bs ! j) = hash (?bs ! (j - 1)))
      = (hash (bs ! j) = generate_hash (bs ! j) \<and> previous_hash (bs ! j) = hash (bs ! (j - 1)))"
    if j: "1 \<le> j \<and> j < length bs" for j
  proof -
    have "j \<noteq> 0"
      using j by simp
    then have a: "?bs ! j = bs ! j"
      by (simp add: nth_list_update_neq)
    have b: "hash (?bs ! (j - 1)) = hash (bs ! (j - 1))"
    proof (cases "j - 1 = 0")
      case True
      have "0 < length bs"
        using j by arith
      then have "?bs ! 0 = (bs ! 0)\<lparr>previous_hash := p\<rparr>"
        by simp
      then show ?thesis
        using True by simp
    next
      case False
      then show ?thesis
        by (simp add: nth_list_update_neq)
    qed
    show ?thesis
      by (simp only: a b)
  qed
  have "(\<forall>j. 1 \<le> j \<and> j < length ?bs \<longrightarrow>
        hash (?bs ! j) = generate_hash (?bs ! j) \<and> previous_hash (?bs ! j) = hash (?bs ! (j - 1)))
      = (\<forall>j. 1 \<le> j \<and> j < length bs \<longrightarrow>
        hash (bs ! j) = generate_hash (bs ! j) \<and> previous_hash (bs ! j) = hash (bs ! (j - 1)))"
    using same by (metis length_list_update)
  then show ?thesis
    by (simp only: verify_chain_from_iff)
qed

lemma verify_chain_update:
  "verify_chain (self\<lparr>chain := bs\<rparr>) = verify_chain_from 1 bs"
  by (simp add: verify_chain_def)

subsection \<open>C8\<close>

text \<open>
  C8. \<^verbatim>\<open>add_block()\<close> appends exactly one new block, whose \<^verbatim>\<open>previous_hash\<close> is the
  stored hash of the block that was last before the call and whose transactions are the
  pending buffer as it was, and the pending buffer is empty afterwards; it is cleared
  only then: \<^verbatim>\<open>add_transaction\<close> extends it and leaves the chain alone, and
  \<^verbatim>\<open>add_block\<close> raises only on an empty chain, which no ledger has after its construction.
  Hence after any sequence of \<^verbatim>\<open>add_transaction\<close> and \<^verbatim>\<open>add_block\<close> calls on a new
  ledger, every block at an index \<open>i \<ge> 1\<close> has \<^verbatim>\<open>chain[i].previous_hash == chain[i-1].hash\<close>.
\<close>

theorem add_block_links:
  "(add_block now self = Some (Inr self') \<longrightarrow>
      chain self' = chain self @ [last (chain self')]
      \<and> previous_hash (last (chain self')) = hash (last (chain self))
      \<and> transactions (last (chain self')) = current_transactions self
      \<and> current_transactions self' = [])
   \<and> (add_block now self = Some (Inl e) \<longrightarrow> e = IndexError \<and> chain self = [])
   \<and> chain (add_transaction s r a self) = chain self
   \<and> current_transactions (add_transaction s r a self)
       = current_transactions self @ [\<lparr>sender = s, receiver = r, amount = a\<rparr>]
   \<and> (run cs (Blockchain_init now0) = Some (Inr final) \<longrightarrow>
        (\<forall>i. 1 \<le> i \<and> i < length (chain final) \<longrightarrow>
           previous_hash (chain final ! i) = hash (chain final ! (i - 1))))
   \<and> run cs (Blockchain_init now0) \<noteq> Some (Inl e')"
proof -
  have a: "add_block now self = Some (Inr self') \<longrightarrow>
      chain self' = chain self @ [last (chain self')]
      \<and> previous_hash (last (chain self')) = hash (last (chain self))
      \<and> transactions (last (chain self')) = current_transactions self
      \<and> current_transactions self' = []"
    using add_block_new_block [of now self self'] by blast
  have b: "add_block now self = Some (Inl e) \<longrightarrow> e = IndexError \<and> chain self = []"
    by (auto simp: add_block_def split: if_splits option.splits)
  have c: "run cs (Blockchain_init now0) = Some (Inr final) \<longrightarrow>
      (\<forall>i. 1 \<le> i \<and> i < length (chain final) \<longrightarrow>
         previous_hash (chain final ! i) = hash (chain final ! (i - 1)))"
  proof
    assume "run cs (Blockchain_init now0) = Some (Inr final)"
    then have "verify_chain_from 1 (chain final)"
      using run_Blockchain_init by (simp add: verify_chain_def)
    then show "\<forall>i. 1 \<le> i \<and> i < length (chain final) \<longrightarrow>
        previous_hash (chain final ! i) = hash (chain final ! (i - 1))"
      unfolding verify_chain_from_iff by blast
  qed
  have d: "run cs (Blockchain_init now0) \<noteq> Some (Inl e')"
    by (rule run_no_error) (simp add: Blockchain_init_fresh)
  show ?thesis
    using a b c d by (simp add: add_transaction_def)
qed

lemma example_run:
  "run [Add_transaction ''Alice'' ''Bob'' 50, Add_block example_now1] (Blockchain_init example_now0)
     = Some (Inr example_ledger)"
  by (simp add: example_ledger_run)

theorem add_block_links_witness:
  "add_block example_now1 (add_transaction ''Alice'' ''Bob'' 50 (Blockchain_init example_now0))
     = Some (Inr example_ledger)
   \<and> chain example_ledger = [example_genesis, example_block]
   \<and> previous_hash example_block = hash example_genesis
   \<and> transactions example_block = [example_tx]
   \<and> current_transactions example_ledger = []
   \<and> run [Add_transaction ''Alice'' ''Bob'' 50, Add_block example_now1]
         (Blockchain_init example_now0) = Some (Inr example_ledger)
   \<and> previous_hash (chain example_ledger ! 1) = hash (chain example_ledger ! (1 - 1))
   \<and> add_block example_now1 \<lparr>chain = [], current_transactions = [example_tx]\<rparr>
       = Some (Inl IndexError)"
proof -
  let ?pending = "add_transaction ''Alice'' ''Bob'' 50 (Blockchain_init example_now0)"
  have pending: "chain ?pending = [example_genesis]" "current_transactions ?pending = [example_tx]"
    by (simp_all add: add_transaction_def Blockchain_init_def create_genesis_block_def
        Block_init_genesis example_tx_def)
  have ch: "chain example_ledger = [example_genesis, example_block]"
    by (simp add: example_ledger_def)
  have appended: "previous_hash (last (chain example_ledger)) = hash (last (chain ?pending))
      \<and> transactions (last (chain example_ledger)) = current_transactions ?pending
      \<and> current_transactions example_ledger = []"
    using add_block_links [of example_now1 ?pending example_ledger] example_ledger_run
    by blast
  have "1 \<le> (1::nat) \<and> 1 < length (chain example_ledger)"
    by (simp add: ch)
  then have "previous_hash (chain example_ledger ! 1) = hash (chain example_ledger ! (1 - 1))"
    using add_block_links [of _ _ _ _ _ _ _
        "[Add_transaction ''Alice'' ''Bob'' 50, Add_block example_now1]" example_now0
        example_ledger] example_run
    by blast
  moreover have "add_block example_now1 \<lparr>chain = [], current_transactions = [example_tx]\<rparr>
      = Some (Inl IndexError)"
    by (simp add: add_block_def)
  ultimately show ?thesis
    using appended example_ledger_run example_run by (simp add: ch pending)
qed

subsection \<open>C3\<close>

text \<open>
  C3 as stated fails at the genesis block: in the two-block chain of the run above, the
  \<^verbatim>\<open>previous_hash\<close> of the genesis block is changed from \<^verbatim>\<open>'0'\<close> to \<^verbatim>\<open>'1'\<close> and
  \<^verbatim>\<open>verify_chain()\<close> still returns true; and in a new ledger, which has the genesis block
  only, its stored hash is changed and \<^verbatim>\<open>verify_chain()\<close> still returns true.
\<close>

theorem verify_chain_genesis_counterexample:
  "previous_hash (chain example_ledger ! 0) = ''0''
   \<and> verify_chain (example_ledger\<lparr>chain :=
        (chain example_ledger)[0 := (chain example_ledger ! 0)\<lparr>previous_hash := ''1''\<rparr>]\<rparr>)
   \<and> hash (chain (Blockchain_init example_now0) ! 0) \<noteq> ''ffff''
   \<and> verify_chain ((Blockchain_init example_now0)\<lparr>chain :=
        (chain (Blockchain_init example_now0))
          [0 := (chain (Blockchain_init example_now0) ! 0)\<lparr>hash := ''ffff''\<rparr>]\<rparr>)"
proof -
  have "verify_chain example_ledger"
    using run_Blockchain_init [OF example_run] by simp
  then have a: "verify_chain (example_ledger\<lparr>chain :=
      (chain example_ledger)[0 := (chain example_ledger ! 0)\<lparr>previous_hash := ''1''\<rparr>]\<rparr>)"
    unfolding verify_chain_update tamper_genesis_previous_hash by (simp add: verify_chain_def)
  have b: "verify_chain ((Blockchain_init example_now0)\<lparr>chain :=
      (chain (Blockchain_init example_now0))
        [0 := (chain (Blockchain_init example_now0) ! 0)\<lparr>hash := ''ffff''\<rparr>]\<rparr>)"
    by (simp add: verify_chain_def Blockchain_init_fresh verify_chain_single)
  have c: "hash (chain (Blockchain_init example_now0) ! 0) \<noteq> ''ffff''"
    by (simp add: Blockchain_init_fresh Block_init_genesis example_genesis_def)
  show ?thesis
    using a b c by (simp add: example_ledger_def example_genesis_def)
qed

text \<open>
  C3, amended. For every \<open>N \<ge> 1\<close>, \<^verbatim>\<open>verify_chain()\<close> on an unmodified, newly built
  \<open>N\<close>-block chain returns true, and modifying the stored hash field or the
  \<^verbatim>\<open>previous_hash\<close> field of any block at an index \<open>i \<ge> 1\<close> makes it return false.
  Modifying the stored hash of the genesis block makes it return false exactly when
  \<open>N \<ge> 2\<close>, and modifying the \<^verbatim>\<open>previous_hash\<close> of the genesis block is never detected.
\<close>

theorem verify_chain_fresh:
  assumes "run cs (Blockchain_init now0) = Some (Inr self)"
  shows "1 \<le> length (chain self) \<and> verify_chain self
    \<and> (\<forall>i h. 1 \<le> i \<and> i < length (chain self) \<and> h \<noteq> hash (chain self ! i) \<longrightarrow>
          \<not> verify_chain (self\<lparr>chain := (chain self)[i := (chain self ! i)\<lparr>hash := h\<rparr>]\<rparr>))
    \<and> (\<forall>i p. 1 \<le> i \<and> i < length (chain self) \<and> p \<noteq> previous_hash (chain self ! i) \<longrightarrow>
          \<not> verify_chain
              (self\<lparr>chain := (chain self)[i := (chain self ! i)\<lparr>previous_hash := p\<rparr>]\<rparr>))
    \<and> (\<forall>h. h \<noteq> hash (chain self ! 0) \<longrightarrow>
          verify_chain (self\<lparr>chain := (chain self)[0 := (chain self ! 0)\<lparr>hash := h\<rparr>]\<rparr>)
            = (length (chain self) = 1))
    \<and> (\<forall>p. verify_chain
              (self\<lparr>chain := (chain self)[0 := (chain self ! 0)\<lparr>previous_hash := p\<rparr>]\<rparr>))"
proof -
  have ne: "chain self \<noteq> []" and ok: "verify_chain_from 1 (chain self)"
    using run_Blockchain_init [OF assms] by (simp_all add: verify_chain_def)
  have "1 \<le> length (chain self)"
    using ne by (cases "chain self") simp_all
  moreover have "verify_chain self"
    using ok by (simp add: verify_chain_def)
  moreover have "verify_chain_from 1 ((chain self)[0 := (chain self ! 0)\<lparr>previous_hash := p\<rparr>])" for p
    using ok by (simp only: tamper_genesis_previous_hash)
  ultimately show ?thesis
    unfolding verify_chain_update
    using tamper_hash [OF ok] tamper_previous_hash [OF ok] tamper_genesis_hash [OF ok ne]
    by blast
qed

theorem verify_chain_fresh_witness:
  "run [Add_transaction ''Alice'' ''Bob'' 50, Add_block example_now1] (Blockchain_init example_now0)
     = Some (Inr example_ledger)
   \<and> length (chain example_ledger) = 2
   \<and> verify_chain example_ledger
   \<and> \<not> verify_chain (example_ledger\<lparr>chain :=
          (chain example_ledger)[1 := (chain example_ledger ! 1)\<lparr>hash := ''ffff''\<rparr>]\<rparr>)
   \<and> \<not> verify_chain (example_ledger\<lparr>chain :=
          (chain example_ledger)[1 := (chain example_ledger ! 1)\<lparr>previous_hash := ''0''\<rparr>]\<rparr>)
   \<and> \<not> verify_chain (example_ledger\<lparr>chain :=
          (chain example_ledger)[0 := (chain example_ledger ! 0)\<lparr>hash := ''ffff''\<rparr>]\<rparr>)"
proof -
  note fresh = verify_chain_fresh [OF example_run]
  have len: "length (chain example_ledger) = 2"
    by (simp add: example_ledger_def)
  have "1 \<le> (1::nat) \<and> 1 < length (chain example_ledger) \<and> ''ffff'' \<noteq> hash (chain example_ledger ! 1)"
    by (simp add: example_ledger_def example_block_def)
  then have a: "\<not> verify_chain (example_ledger\<lparr>chain :=
      (chain example_ledger)[1 := (chain example_ledger ! 1)\<lparr>hash := ''ffff''\<rparr>]\<rparr>)"
    using fresh by blast
  have "1 \<le> (1::nat) \<and> 1 < length (chain example_ledger)
      \<and> ''0'' \<noteq> previous_hash (chain example_ledger ! 1)"
    by (simp add: example_ledger_def example_block_def)
  then have b: "\<not> verify_chain (example_ledger\<lparr>chain :=
      (chain example_ledger)[1 := (chain example_ledger ! 1)\<lparr>previous_hash := ''0''\<rparr>]\<rparr>)"
    using fresh by blast
  have "''ffff'' \<noteq> hash (chain example_ledger ! 0)"
    by (simp add: example_ledger_def example_genesis_def)
  then have c: "\<not> verify_chain (example_ledger\<lparr>chain :=
      (chain example_ledger)[0 := (chain example_ledger ! 0)\<lparr>hash := ''ffff''\<rparr>]\<rparr>)"
    using fresh len by simp
  show ?thesis
    using example_run len fresh a b c by blast
qed

section \<open>Construction\<close>

subsection \<open>C2\<close>



section \<open>to_dict and from_dict\<close>

lemma MerkleTree_init_stored: "MerkleTree_init [] root = \<lparr>merkle_root = root\<rparr>"
  by (simp add: MerkleTree_init_def create_merkle_root.simps)

lemma from_dict_to_dict:
  assumes "valid_datetime (timestamp block)"
  shows "from_dict now (to_dict block) = Inr block"
  by (simp add: from_dict_def to_dict_def fromisoformat_str_datetime [OF assms] Block_init_def
      MerkleTree_init_stored)

lemma from_dicts_to_dict:
  "\<forall>block \<in> set bs. valid_datetime (timestamp block) \<Longrightarrow>
     from_dicts now (map to_dict bs) = Inr bs"
  by (induction bs) (simp_all add: from_dict_to_dict)

lemma valid_example_now: "valid_datetime example_now0" "valid_datetime example_now1"
  by (simp_all add: valid_datetime_def example_now0_def example_now1_def days_in_month_def)

lemma verify_all_transactions_example: "verify_all_transactions example_ledger"
  using MerkleTree_init_example
  by (simp add: verify_all_transactions_def example_ledger_def verify_transactions_def
      example_genesis_def example_block_def MerkleTree_init_Nil)

lemma from_dict_Inr:
  assumes "from_dict now data = Inr block"
  shows "\<exists>txs prev ts t n h root.
      key_transactions data = Some txs \<and> key_previous_hash data = Some prev
      \<and> key_timestamp data = Some ts \<and> fromisoformat ts = Some t
      \<and> key_nonce data = Some n \<and> key_hash data = Some h \<and> key_merkle_root data = Some root
      \<and> block = (Block_init now txs prev)
            \<lparr>timestamp := t, nonce := n, hash := h, merkle_tree := MerkleTree_init [] root\<rparr>"
  using assms unfolding from_dict_def by (simp split: option.splits)

lemma from_dict_missing:
  assumes "key_timestamp data = None \<or> key_transactions data = None
      \<or> key_previous_hash data = None \<or> key_nonce data = None \<or> key_hash data = None
      \<or> key_merkle_root data = None"
  shows "\<exists>e. from_dict now data = Inl e"
proof (cases "from_dict now data")
  case (Inl e)
  then show ?thesis by simp
next
  case (Inr block)
  from from_dict_Inr [OF Inr] assms show ?thesis
    by auto
qed

definition from_dict_errors :: "error set" where
  "from_dict_errors = {KeyError ''transactions'', KeyError ''previous_hash'', KeyError ''timestamp'',
     ValueError, KeyError ''nonce'', KeyError ''hash'', KeyError ''merkle_root''}"

lemma from_dict_Inl:
  assumes "from_dict now data = Inl e"
  shows "e \<in> from_dict_errors"
proof -
  have "(\<exists>block. from_dict now data = Inr block)
      \<or> (\<exists>e' \<in> from_dict_errors. from_dict now data = Inl e')"
    unfolding from_dict_def from_dict_errors_def by (simp split: option.splits)
  then show ?thesis
    using assms by auto
qed

subsection \<open>C9\<close>

text \<open>
  C9. Reconstructing a block from a stored record that lacks one of the fields
  \<^verbatim>\<open>timestamp\<close>, \<^verbatim>\<open>transactions\<close>, \<^verbatim>\<open>previous_hash\<close>, \<^verbatim>\<open>nonce\<close>, \<^verbatim>\<open>hash\<close> and
  \<^verbatim>\<open>merkle_root\<close> raises an error, which is no boolean result of a verification: the
  error is a \<^verbatim>\<open>KeyError\<close> naming one of the six keys, or the \<^verbatim>\<open>ValueError\<close> of a
  timestamp that does not parse. No default stands in for a missing field: when a block
  is returned, every one of its six fields is the stored one.
\<close>

theorem from_dict_missing_key:
  "(key_timestamp data = None \<or> key_transactions data = None \<or> key_previous_hash data = None
      \<or> key_nonce data = None \<or> key_hash data = None \<or> key_merkle_root data = None
     \<longrightarrow> (\<exists>e. from_dict now data = Inl e))
   \<and> (from_dict now data = Inl e \<longrightarrow> e \<in> from_dict_errors)
   \<and> (from_dict now data = Inr block \<longrightarrow>
        key_transactions data = Some (transactions block)
        \<and> key_previous_hash data = Some (previous_hash block)
        \<and> key_nonce data = Some (nonce block)
        \<and> key_hash data = Some (hash block)
        \<and> key_merkle_root data = Some (merkle_root (merkle_tree block))
        \<and> (\<exists>ts. key_timestamp data = Some ts \<and> fromisoformat ts = Some (timestamp block)))"
proof -
  have "key_transactions data = Some (transactions block)
        \<and> key_previous_hash data = Some (previous_hash block)
        \<and> key_nonce data = Some (nonce block)
        \<and> key_hash data = Some (hash block)
        \<and> key_merkle_root data = Some (merkle_root (merkle_tree block))
        \<and> (\<exists>ts. key_timestamp data = Some ts \<and> fromisoformat ts = Some (timestamp block))"
    if "from_dict now data = Inr block"
  proof -
    from from_dict_Inr [OF that] obtain txs prev ts t n h root where
      k: "key_transactions data = Some txs" "key_previous_hash data = Some prev"
        "key_timestamp data = Some ts" "fromisoformat ts = Some t"
        "key_nonce data = Some n" "key_hash data = Some h" "key_merkle_root data = Some root"
      and b: "block = (Block_init now txs prev)
            \<lparr>timestamp := t, nonce := n, hash := h, merkle_tree := MerkleTree_init [] root\<rparr>"
      by blast
    have "transactions block = txs" "previous_hash block = prev" "nonce block = n"
      "hash block = h" "merkle_root (merkle_tree block) = root" "timestamp block = t"
      by (simp_all add: b Block_init_def MerkleTree_init_stored)
    then show ?thesis
      using k by simp
  qed
  then show ?thesis
    using from_dict_missing [of data now] from_dict_Inl [of now data e] by blast
qed

theorem from_dict_missing_key_witness:
  "key_nonce ((to_dict example_block)\<lparr>key_nonce := None\<rparr>) = None
   \<and> from_dict example_now0 ((to_dict example_block)\<lparr>key_nonce := None\<rparr>) = Inl (KeyError ''nonce'')
   \<and> from_dict example_now0 (to_dict example_block) = Inr example_block
   \<and> key_nonce (to_dict example_block) = Some 1"
proof -
  let ?data = "(to_dict example_block)\<lparr>key_nonce := None\<rparr>"
  have ts: "fromisoformat (str_datetime (timestamp example_block)) = Some example_now1"
    using fromisoformat_str_datetime [OF valid_example_now(2)] by (simp add: example_block_def)
  have missing: "key_nonce ?data = None"
    by simp
  then obtain e where e: "from_dict example_now0 ?data = Inl e"
    using from_dict_missing_key [of ?data example_now0] by blast
  have "from_dict example_now0 ?data = Inl (KeyError ''nonce'')"
    by (simp add: from_dict_def to_dict_def ts)
  moreover have whole: "from_dict example_now0 (to_dict example_block) = Inr example_block"
    by (rule from_dict_to_dict) (simp add: example_block_def valid_example_now)
  moreover have "key_nonce (to_dict example_block) = Some (nonce example_block)"
    using from_dict_missing_key [of "to_dict example_block" example_now0 _ example_block] whole
    by blast
  ultimately show ?thesis
    using missing e by (simp add: example_block_def)
qed

subsection \<open>C7\<close>

text \<open>
  C7. Round trip: for every untampered chain, one on which \<^verbatim>\<open>verify_chain()\<close> and
  \<^verbatim>\<open>verify_all_transactions()\<close> return true, encoding each block with \<^verbatim>\<open>to_dict\<close> and
  reconstructing each block with \<^verbatim>\<open>from_dict\<close> raises no error and yields a chain on
  which \<^verbatim>\<open>verify_chain()\<close> and \<^verbatim>\<open>verify_all_transactions()\<close> both return true: every
  block is reconstructed with all its fields. (The timestamps are values a \<^verbatim>\<open>datetime\<close>
  object can hold.)
\<close>

theorem to_dict_from_dict_round_trip:
  assumes "\<forall>block \<in> set (chain self). valid_datetime (timestamp block)"
    and "verify_chain self" and "verify_all_transactions self"
  shows "\<exists>loaded. load_chain now (chain_data self) other = Inr loaded
           \<and> chain loaded = chain self
           \<and> verify_chain loaded \<and> verify_all_transactions loaded"
proof -
  have "from_dicts now (chain_data self) = Inr (chain self)"
    unfolding chain_data_def using assms(1) by (rule from_dicts_to_dict)
  then have "load_chain now (chain_data self) other = Inr (other\<lparr>chain := chain self\<rparr>)"
    by (simp add: load_chain_def)
  moreover have "verify_chain (other\<lparr>chain := chain self\<rparr>)"
    using assms(2) by (simp add: verify_chain_def)
  moreover have "verify_all_transactions (other\<lparr>chain := chain self\<rparr>)"
    using assms(3) by (simp add: verify_all_transactions_def)
  ultimately show ?thesis
    by simp
qed

theorem to_dict_from_dict_round_trip_witness:
  "valid_datetime (timestamp example_genesis) \<and> valid_datetime (timestamp example_block)
   \<and> verify_chain example_ledger \<and> verify_all_transactions example_ledger
   \<and> (\<exists>loaded. load_chain example_now1 (chain_data example_ledger) (Blockchain_init example_now0)
                   = Inr loaded
         \<and> chain loaded = [example_genesis, example_block]
         \<and> verify_chain loaded \<and> verify_all_transactions loaded)"
proof -
  have v: "\<forall>block \<in> set (chain example_ledger). valid_datetime (timestamp block)"
    by (simp add: example_ledger_def example_genesis_def example_block_def valid_example_now)
  have c: "verify_chain example_ledger"
    using run_Blockchain_init [OF example_run] by simp
  have t: "verify_all_transactions example_ledger"
    by (rule verify_all_transactions_example)
  have "\<exists>loaded. load_chain example_now1 (chain_data example_ledger) (Blockchain_init example_now0)
                   = Inr loaded
         \<and> chain loaded = chain example_ledger
         \<and> verify_chain loaded \<and> verify_all_transactions loaded"
    by (rule to_dict_from_dict_round_trip [OF v c t])
  moreover have "valid_datetime (timestamp example_genesis) \<and> valid_datetime (timestamp example_block)"
    using v by (simp add: example_ledger_def)
  ultimately show ?thesis
    using c t by (simp add: example_ledger_def)
qed

end
